theory Spec2Isabelle
  imports Main
begin

section \<open>The Tetris engine of game_logic.py\<close>

text \<open>
  A shallow embedding of class \<open>TetrisGame\<close>. Cells are Python integers (0 or 1) tested
  for truthiness and the board is a list of rows. A method takes the game and returns the
  game it leaves behind, together with either its return value (\<open>Inr\<close>) or the exception
  it raised (\<open>Inl\<close>); a Python exception does not undo the assignments made before it, so
  the game is returned in both cases. Only \<open>_is_valid_position\<close>, which assigns to nothing
  and is called by the other methods, returns its result alone.
\<close>

subsection \<open>Python list primitives\<close>

datatype error = IndexError

text \<open>\<open>xs[i]\<close>: a negative index counts from the end, an index outside the list raises.\<close>

definition py_index :: "'a list \<Rightarrow> int \<Rightarrow> error + 'a" where
  "py_index xs i =
     (if 0 \<le> i \<and> i < int (length xs) then Inr (xs ! nat i)
      else if i < 0 \<and> - int (length xs) \<le> i then Inr (xs ! nat (int (length xs) + i))
      else Inl IndexError)"

text \<open>\<open>xs[i] = v\<close>, with the same index rule.\<close>

definition py_store :: "'a list \<Rightarrow> int \<Rightarrow> 'a \<Rightarrow> error + 'a list" where
  "py_store xs i v =
     (if 0 \<le> i \<and> i < int (length xs) then Inr (xs[nat i := v])
      else if i < 0 \<and> - int (length xs) \<le> i then Inr (xs[nat (int (length xs) + i) := v])
      else Inl IndexError)"

text \<open>\<open>del xs[i]\<close>, with the same index rule.\<close>

definition py_del :: "'a list \<Rightarrow> int \<Rightarrow> error + 'a list" where
  "py_del xs i =
     (if 0 \<le> i \<and> i < int (length xs) then Inr (take (nat i) xs @ drop (Suc (nat i)) xs)
      else if i < 0 \<and> - int (length xs) \<le> i
      then Inr (take (nat (int (length xs) + i)) xs @ drop (Suc (nat (int (length xs) + i))) xs)
      else Inl IndexError)"

text \<open>Truthiness of an integer cell, and \<open>all(row)\<close>.\<close>

definition truthy :: "int \<Rightarrow> bool" where
  "truthy v = (v \<noteq> 0)"

definition py_all :: "int list \<Rightarrow> bool" where
  "py_all row = list_all truthy row"

subsection \<open>The catalogue \<open>TETROMINOS\<close>\<close>

text \<open>
  The keys of \<open>TETROMINOS\<close>. Every piece dictionary of the program is built from the
  catalogue entry of its \<open>'type'\<close> (in \<open>_generate_random_piece\<close> and in \<open>hold_piece\<close>), so
  a piece is modelled by its key and its \<open>'shape'\<close>, \<open>'color'\<close> and \<open>'rotations'\<close> entries
  are looked up.
\<close>

datatype kind = Tet_I | Tet_O | Tet_T | Tet_S | Tet_Z | Tet_J | Tet_L

type_synonym grid = "int list list"

fun shape :: "kind \<Rightarrow> grid" where
  "shape Tet_I = [[1, 1, 1, 1]]"
| "shape Tet_O = [[1, 1], [1, 1]]"
| "shape Tet_T = [[0, 1, 0], [1, 1, 1]]"
| "shape Tet_S = [[0, 1, 1], [1, 1, 0]]"
| "shape Tet_Z = [[1, 1, 0], [0, 1, 1]]"
| "shape Tet_J = [[1, 0, 0], [1, 1, 1]]"
| "shape Tet_L = [[0, 0, 1], [1, 1, 1]]"

fun color :: "kind \<Rightarrow> string" where
  "color Tet_I = ''#00ffff''"
| "color Tet_O = ''#ffff00''"
| "color Tet_T = ''#800080''"
| "color Tet_S = ''#00ff00''"
| "color Tet_Z = ''#ff0000''"
| "color Tet_J = ''#0000ff''"
| "color Tet_L = ''#ffa500''"

fun rotations :: "kind \<Rightarrow> grid list" where
  "rotations Tet_I = [[[1, 1, 1, 1]], [[1], [1], [1], [1]]]"
| "rotations Tet_O = [[[1, 1], [1, 1]]]"
| "rotations Tet_T =
     [[[0, 1, 0], [1, 1, 1]], [[1, 0], [1, 1], [1, 0]],
      [[1, 1, 1], [0, 1, 0]], [[0, 1], [1, 1], [0, 1]]]"
| "rotations Tet_S = [[[0, 1, 1], [1, 1, 0]], [[1, 0], [1, 1], [0, 1]]]"
| "rotations Tet_Z = [[[1, 1, 0], [0, 1, 1]], [[0, 1], [1, 1], [1, 0]]]"
| "rotations Tet_J =
     [[[1, 0, 0], [1, 1, 1]], [[1, 1], [1, 0], [1, 0]],
      [[1, 1, 1], [0, 0, 1]], [[0, 1], [0, 1], [1, 1]]]"
| "rotations Tet_L =
     [[[0, 0, 1], [1, 1, 1]], [[1, 0], [1, 0], [1, 1]],
      [[1, 1, 1], [1, 0, 0]], [[1, 1], [0, 1], [0, 1]]]"

definition BOARD_WIDTH :: int where
  "BOARD_WIDTH = 10"

definition BOARD_HEIGHT :: int where
  "BOARD_HEIGHT = 20"

text \<open>
  \<open>piece['rotations'][rotation % len(piece['rotations'])]\<close>. Python's \<open>%\<close> with a positive
  divisor is \<open>mod\<close> on \<open>int\<close>, and no catalogue entry has an empty list of rotations, so
  the index is in range.
\<close>

definition shape_at :: "kind \<Rightarrow> int \<Rightarrow> grid" where
  "shape_at piece rot = rotations piece ! nat (rot mod int (length (rotations piece)))"

text \<open>
  The cells visited by \<open>for row in range(len(shape)): for col in range(len(shape[row])):
  if shape[row][col]\<close>, in the order the two loops visit them.
\<close>

fun occupied_row :: "nat \<Rightarrow> nat \<Rightarrow> int list \<Rightarrow> (nat \<times> nat) list" where
  "occupied_row row col [] = []"
| "occupied_row row col (v # vs) =
     (if truthy v then (row, col) # occupied_row row (Suc col) vs
      else occupied_row row (Suc col) vs)"

fun occupied_from :: "nat \<Rightarrow> grid \<Rightarrow> (nat \<times> nat) list" where
  "occupied_from row [] = []"
| "occupied_from row (r # rs) = occupied_row row 0 r @ occupied_from (Suc row) rs"

definition occupied :: "grid \<Rightarrow> (nat \<times> nat) list" where
  "occupied sh = occupied_from 0 sh"

subsection \<open>The game\<close>

record position =
  pos_x :: int
  pos_y :: int

record game =
  board :: grid
  score :: int
  lines_cleared :: int
  level :: int
  current_piece :: kind
  next_piece :: kind
  held_piece :: "kind option"
  piece_position :: position
  rotation :: int
  can_hold :: bool

text \<open>
  \<open>_generate_random_piece\<close>: the value drawn by \<open>random.choice\<close> is an input of the model;
  every operation that draws a piece takes the drawn key as an argument.
\<close>

definition generate_random_piece :: "kind \<Rightarrow> kind" where
  "generate_random_piece drawn = drawn"

subsection \<open>\<open>_is_valid_position\<close>\<close>

text \<open>
  One occupied cell of the loop body: \<open>Inr False\<close> is the early \<open>return False\<close>,
  \<open>Inr True\<close> lets the loop go on, and the read \<open>self.board[new_y][new_x]\<close> can raise.
\<close>

definition check_cell :: "grid \<Rightarrow> position \<Rightarrow> nat \<times> nat \<Rightarrow> error + bool" where
  "check_cell b pos rc =
     (let new_x = pos_x pos + int (snd rc);
          new_y = pos_y pos + int (fst rc)
      in if new_x < 0 \<or> new_x \<ge> BOARD_WIDTH \<or> new_y \<ge> BOARD_HEIGHT then Inr False
         else if new_y \<ge> 0 then
           (case py_index b new_y of
              Inl e \<Rightarrow> Inl e
            | Inr line \<Rightarrow>
                (case py_index line new_x of
                   Inl e \<Rightarrow> Inl e
                 | Inr v \<Rightarrow> if truthy v then Inr False else Inr True))
         else Inr True)"

fun check_cells :: "grid \<Rightarrow> position \<Rightarrow> (nat \<times> nat) list \<Rightarrow> error + bool" where
  "check_cells b pos [] = Inr True"
| "check_cells b pos (rc # rest) =
     (case check_cell b pos rc of
        Inl e \<Rightarrow> Inl e
      | Inr ok \<Rightarrow> if ok then check_cells b pos rest else Inr False)"

text \<open>
  The three optional arguments default to the attributes of \<open>self\<close>. The method assigns
  to nothing, so it returns no game.
\<close>

definition is_valid_position ::
  "game \<Rightarrow> kind option \<Rightarrow> position option \<Rightarrow> int option \<Rightarrow> error + bool" where
  "is_valid_position s piece pos rot =
     (let piece' = (case piece of None \<Rightarrow> current_piece s | Some p \<Rightarrow> p);
          pos' = (case pos of None \<Rightarrow> piece_position s | Some p \<Rightarrow> p);
          rot' = (case rot of None \<Rightarrow> rotation s | Some r \<Rightarrow> r)
      in check_cells (board s) pos' (occupied (shape_at piece' rot')))"

subsection \<open>Spawning, moving and rotating\<close>

definition spawn_new_piece :: "kind \<Rightarrow> game \<Rightarrow> (error + bool) \<times> game" where
  "spawn_new_piece drawn s =
     (let s1 = s\<lparr>current_piece := next_piece s\<rparr>;
          s2 = s1\<lparr>next_piece := generate_random_piece drawn\<rparr>;
          s3 = s2\<lparr>rotation := 0, can_hold := True\<rparr>;
          piece_width = int (length (shape (current_piece s3) ! 0));
          s4 = s3\<lparr>piece_position :=
                  \<lparr>pos_x = BOARD_WIDTH div 2 - piece_width div 2, pos_y = 0\<rparr>\<rparr>
      in case is_valid_position s4 None None None of
           Inl e \<Rightarrow> (Inl e, s4)
         | Inr ok \<Rightarrow> if \<not> ok then (Inr False, s4) else (Inr True, s4))"

definition move_piece :: "int \<Rightarrow> int \<Rightarrow> game \<Rightarrow> (error + bool) \<times> game" where
  "move_piece dx dy s =
     (let new_pos = \<lparr>pos_x = pos_x (piece_position s) + dx,
                     pos_y = pos_y (piece_position s) + dy\<rparr>
      in case is_valid_position s None (Some new_pos) None of
           Inl e \<Rightarrow> (Inl e, s)
         | Inr ok \<Rightarrow> if ok then (Inr True, s\<lparr>piece_position := new_pos\<rparr>) else (Inr False, s))"

text \<open>The loop \<open>for kick_x in [-1, 1, -2, 2]\<close> of \<open>rotate_piece\<close>.\<close>

fun try_kicks :: "game \<Rightarrow> int \<Rightarrow> int list \<Rightarrow> (error + bool) \<times> game" where
  "try_kicks s new_rotation [] = (Inr False, s)"
| "try_kicks s new_rotation (kick_x # kicks) =
     (let kick_pos = \<lparr>pos_x = pos_x (piece_position s) + kick_x,
                      pos_y = pos_y (piece_position s)\<rparr>
      in case is_valid_position s None (Some kick_pos) (Some new_rotation) of
           Inl e \<Rightarrow> (Inl e, s)
         | Inr ok \<Rightarrow>
             if ok then (Inr True, s\<lparr>rotation := new_rotation, piece_position := kick_pos\<rparr>)
             else try_kicks s new_rotation kicks)"

definition rotate_piece :: "game \<Rightarrow> (error + bool) \<times> game" where
  "rotate_piece s =
     (let new_rotation = (rotation s + 1) mod int (length (rotations (current_piece s)))
      in case is_valid_position s None None (Some new_rotation) of
           Inl e \<Rightarrow> (Inl e, s)
         | Inr ok \<Rightarrow>
             if ok then (Inr True, s\<lparr>rotation := new_rotation\<rparr>)
             else try_kicks s new_rotation [-1, 1, -2, 2])"

definition drop_piece :: "game \<Rightarrow> (error + bool) \<times> game" where
  "drop_piece s = move_piece 0 1 s"

subsection \<open>\<open>hard_drop\<close>, \<open>_place_piece\<close> and \<open>_clear_lines\<close>\<close>

text \<open>
  The loop \<open>while self.drop_piece(): drop_distance += 1\<close>. A successful step puts the
  piece one row lower and is only possible while every occupied cell stays above the
  bottom edge; every shape of the catalogue has an occupied cell, which bounds the number
  of steps by the distance to row \<open>BOARD_HEIGHT\<close>.
\<close>

function hard_drop_loop :: "game \<Rightarrow> int \<Rightarrow> (error + int) \<times> game" where
  "hard_drop_loop s drop_distance =
     (case drop_piece s of
        (Inl e, s') \<Rightarrow> (Inl e, s')
      | (Inr ok, s') \<Rightarrow>
          if ok then hard_drop_loop s' (drop_distance + 1) else (Inr drop_distance, s'))"
  by pat_completeness auto
termination
proof (relation "measure (\<lambda>(s, d). nat (BOARD_HEIGHT - pos_y (piece_position s)))")
  show "wf (measure (\<lambda>(s, d). nat (BOARD_HEIGHT - pos_y (piece_position s))))"
    by simp
next
  fix s :: game and drop_distance :: int and x1 x2 ok
  assume a: "(x1, x2) = drop_piece s" "x1 = Inr ok" "ok"
  define p where
    "p = \<lparr>pos_x = pos_x (piece_position s) + 0, pos_y = pos_y (piece_position s) + 1\<rparr>"
  have m2: "rot mod 2 = 0 \<or> rot mod 2 = 1" for rot :: int
    by presburger
  have m4: "rot mod 4 = 0 \<or> rot mod 4 = 1 \<or> rot mod 4 = 2 \<or> rot mod 4 = 3" for rot :: int
    by presburger
  have "\<exists>rc rest. occupied (shape_at k rot) = rc # rest" for k rot
    using m2 [of rot] m4 [of rot]
    by (cases k) (auto simp: shape_at_def occupied_def truthy_def)
  then obtain rc rest where cells:
    "occupied (shape_at (current_piece s) (rotation s)) = rc # rest"
    by blast
  from a have v: "is_valid_position s None (Some p) None = Inr True"
    and x2: "x2 = s\<lparr>piece_position := p\<rparr>"
    by (auto simp: drop_piece_def move_piece_def p_def Let_def split: sum.splits if_splits)
  from v cells have "check_cell (board s) p rc = Inr True"
    by (auto simp: is_valid_position_def split: sum.splits if_splits)
  then have "pos_y p + int (fst rc) < BOARD_HEIGHT"
    by (auto simp: check_cell_def Let_def split: if_splits)
  then have "pos_y (piece_position s) + 1 < BOARD_HEIGHT"
    by (simp add: p_def)
  with x2 show "((x2, drop_distance + 1), (s, drop_distance))
       \<in> measure (\<lambda>(s, d). nat (BOARD_HEIGHT - pos_y (piece_position s)))"
    by (simp add: p_def)
qed

declare hard_drop_loop.simps [simp del]

text \<open>
  The placing loop of \<open>_place_piece\<close>: \<open>self.board[board_y][board_x] = 1\<close> for every
  occupied cell with \<open>board_y >= 0\<close>. The rows of the board are separate list objects, so
  the store changes one row. A store that raises leaves the cells written so far.
\<close>

definition write_cell :: "grid \<Rightarrow> position \<Rightarrow> nat \<times> nat \<Rightarrow> error + grid" where
  "write_cell b pos rc =
     (let board_y = pos_y pos + int (fst rc);
          board_x = pos_x pos + int (snd rc)
      in if board_y \<ge> 0 then
           (case py_index b board_y of
              Inl e \<Rightarrow> Inl e
            | Inr line \<Rightarrow>
                (case py_store line board_x 1 of
                   Inl e \<Rightarrow> Inl e
                 | Inr line' \<Rightarrow> Inr (b[nat board_y := line'])))
         else Inr b)"

fun write_cells :: "grid \<Rightarrow> position \<Rightarrow> (nat \<times> nat) list \<Rightarrow> (error + unit) \<times> grid" where
  "write_cells b pos [] = (Inr (), b)"
| "write_cells b pos (rc # rest) =
     (case write_cell b pos rc of
        Inl e \<Rightarrow> (Inl e, b)
      | Inr b' \<Rightarrow> write_cells b' pos rest)"

text \<open>The first loop of \<open>_clear_lines\<close>: the rows of \<open>range(BOARD_HEIGHT)\<close> that are full.\<close>

fun full_rows :: "grid \<Rightarrow> int list \<Rightarrow> error + int list" where
  "full_rows b [] = Inr []"
| "full_rows b (row # rows) =
     (case py_index b row of
        Inl e \<Rightarrow> Inl e
      | Inr line \<Rightarrow>
          (case full_rows b rows of
             Inl e \<Rightarrow> Inl e
           | Inr found \<Rightarrow> Inr (if py_all line then row # found else found)))"

text \<open>
  The second loop: \<open>del self.board[row]\<close>, then \<open>self.board.insert(0, [0, ..., 0])\<close>, for
  the recorded indices in the order given.
\<close>

fun remove_rows :: "grid \<Rightarrow> int list \<Rightarrow> (error + unit) \<times> grid" where
  "remove_rows b [] = (Inr (), b)"
| "remove_rows b (row # rows) =
     (case py_del b row of
        Inl e \<Rightarrow> (Inl e, b)
      | Inr b' \<Rightarrow> remove_rows (replicate (nat BOARD_WIDTH) 0 # b') rows)"

definition clear_lines :: "game \<Rightarrow> (error + int) \<times> game" where
  "clear_lines s =
     (case full_rows (board s) (map int [0..<nat BOARD_HEIGHT]) of
        Inl e \<Rightarrow> (Inl e, s)
      | Inr lines_to_clear \<Rightarrow>
          (case remove_rows (board s) (rev (sort lines_to_clear)) of
             (Inl e, b') \<Rightarrow> (Inl e, s\<lparr>board := b'\<rparr>)
           | (Inr u, b') \<Rightarrow> (Inr (int (length lines_to_clear)), s\<lparr>board := b'\<rparr>)))"

text \<open>
  The scoring step of \<open>_place_piece\<close> (the block under \<open>if lines_cleared > 0\<close>): the
  points are the entry of the five-element table at index \<open>lines_cleared\<close> times the
  level, and the level is recomputed after the points are added.
\<close>

definition update_score :: "int \<Rightarrow> game \<Rightarrow> error + game" where
  "update_score n s =
     (if n > 0 then
        (case py_index [0, 40, 100, 300, 1200] n of
           Inl e \<Rightarrow> Inl e
         | Inr entry \<Rightarrow>
             (let points = entry * level s;
                  s1 = s\<lparr>score := score s + points\<rparr>;
                  s2 = s1\<lparr>lines_cleared := lines_cleared s1 + n\<rparr>
              in Inr (s2\<lparr>level := lines_cleared s2 div 10 + 1\<rparr>)))
      else Inr s)"

definition place_piece :: "kind \<Rightarrow> game \<Rightarrow> (error + int) \<times> game" where
  "place_piece drawn s =
     (let sh = shape_at (current_piece s) (rotation s)
      in case write_cells (board s) (piece_position s) (occupied sh) of
           (Inl e, b1) \<Rightarrow> (Inl e, s\<lparr>board := b1\<rparr>)
         | (Inr u, b1) \<Rightarrow>
             (case clear_lines (s\<lparr>board := b1\<rparr>) of
                (Inl e, s2) \<Rightarrow> (Inl e, s2)
              | (Inr n, s2) \<Rightarrow>
                  (case update_score n s2 of
                     Inl e \<Rightarrow> (Inl e, s2)
                   | Inr s3 \<Rightarrow>
                       (case spawn_new_piece drawn s3 of
                          (Inl e, s4) \<Rightarrow> (Inl e, s4)
                        | (Inr ok, s4) \<Rightarrow> if \<not> ok then (Inr (- 1), s4) else (Inr n, s4)))))"

definition hard_drop :: "kind \<Rightarrow> game \<Rightarrow> (error + int) \<times> game" where
  "hard_drop drawn s =
     (case hard_drop_loop s 0 of
        (Inl e, s1) \<Rightarrow> (Inl e, s1)
      | (Inr drop_distance, s1) \<Rightarrow>
          place_piece drawn (s1\<lparr>score := score s1 + drop_distance * 2\<rparr>))"

subsection \<open>\<open>hold_piece\<close>\<close>

text \<open>A piece is drawn only in the branch that finds no held piece.\<close>

definition hold_piece :: "kind \<Rightarrow> game \<Rightarrow> (error + bool) \<times> game" where
  "hold_piece drawn s =
     (if \<not> can_hold s then (Inr False, s)
      else
        (let s1 = (case held_piece s of
                     None \<Rightarrow>
                       s\<lparr>held_piece := Some (current_piece s),
                         current_piece := next_piece s,
                         next_piece := generate_random_piece drawn\<rparr>
                   | Some held \<Rightarrow>
                       s\<lparr>current_piece := held, held_piece := Some (current_piece s)\<rparr>);
             s2 = s1\<lparr>rotation := 0, can_hold := False\<rparr>;
             piece_width = int (length (shape (current_piece s2) ! 0))
         in (Inr True,
             s2\<lparr>piece_position :=
                  \<lparr>pos_x = BOARD_WIDTH div 2 - piece_width div 2, pos_y = 0\<rparr>\<rparr>)))"

subsection \<open>\<open>get_ghost_position\<close>, \<open>get_game_state\<close>, \<open>get_drop_interval\<close>\<close>

text \<open>
  The loop \<open>while True\<close> of \<open>get_ghost_position\<close>. \<open>temp_pos\<close> is a copy of the position
  dictionary, so the store \<open>temp_pos['y'] = ghost_y\<close> does not reach \<open>self\<close>; the loop
  returns the value of \<open>ghost_y\<close> at the \<open>break\<close>.
\<close>

function ghost_loop :: "game \<Rightarrow> position \<Rightarrow> int \<Rightarrow> error + int" where
  "ghost_loop s temp_pos ghost_y =
     (let temp_pos' = temp_pos\<lparr>pos_y := ghost_y\<rparr>
      in case is_valid_position s None (Some temp_pos') None of
           Inl e \<Rightarrow> Inl e
         | Inr ok \<Rightarrow> if \<not> ok then Inr ghost_y else ghost_loop s temp_pos' (ghost_y + 1))"
  by pat_completeness auto
termination
proof (relation "measure (\<lambda>(s, temp_pos, ghost_y). nat (BOARD_HEIGHT - ghost_y))")
  show "wf (measure (\<lambda>(s, temp_pos, ghost_y). nat (BOARD_HEIGHT - ghost_y)))"
    by simp
next
  fix s :: game and temp_pos :: position and ghost_y :: int and x :: position and ok
  assume a: "x = temp_pos\<lparr>pos_y := ghost_y\<rparr>"
    "is_valid_position s None (Some x) None = Inr ok" "\<not> \<not> ok"
  have m2: "rot mod 2 = 0 \<or> rot mod 2 = 1" for rot :: int
    by presburger
  have m4: "rot mod 4 = 0 \<or> rot mod 4 = 1 \<or> rot mod 4 = 2 \<or> rot mod 4 = 3" for rot :: int
    by presburger
  have "\<exists>rc rest. occupied (shape_at k rot) = rc # rest" for k rot
    using m2 [of rot] m4 [of rot]
    by (cases k) (auto simp: shape_at_def occupied_def truthy_def)
  then obtain rc rest where cells:
    "occupied (shape_at (current_piece s) (rotation s)) = rc # rest"
    by blast
  from a cells have "check_cell (board s) x rc = Inr True"
    by (auto simp: is_valid_position_def split: sum.splits if_splits)
  then have "pos_y x + int (fst rc) < BOARD_HEIGHT"
    by (auto simp: check_cell_def Let_def split: if_splits)
  with a(1) have "ghost_y < BOARD_HEIGHT"
    by simp
  then show "((s, x, ghost_y + 1), (s, temp_pos, ghost_y))
       \<in> measure (\<lambda>(s, temp_pos, ghost_y). nat (BOARD_HEIGHT - ghost_y))"
    by simp
qed

declare ghost_loop.simps [simp del]

definition get_ghost_position :: "game \<Rightarrow> (error + int \<times> int) \<times> game" where
  "get_ghost_position s =
     (let ghost_y = pos_y (piece_position s);
          temp_pos = piece_position s
      in case ghost_loop s temp_pos ghost_y of
           Inl e \<Rightarrow> (Inl e, s)
         | Inr ghost_y' \<Rightarrow> (Inr (pos_x (piece_position s), ghost_y' - 1), s))"

record game_state =
  gs_board :: grid
  gs_score :: int
  gs_lines_cleared :: int
  gs_level :: int
  gs_current_piece :: kind
  gs_next_piece :: kind
  gs_held_piece :: "kind option"

definition get_game_state :: "game \<Rightarrow> (error + game_state) \<times> game" where
  "get_game_state s =
     (Inr \<lparr>gs_board = board s, gs_score = score s, gs_lines_cleared = lines_cleared s,
           gs_level = level s, gs_current_piece = current_piece s,
           gs_next_piece = next_piece s, gs_held_piece = held_piece s\<rparr>, s)"

definition get_drop_interval :: "game \<Rightarrow> (error + int) \<times> game" where
  "get_drop_interval s = (Inr (max 50 (1000 - (level s - 1) * 50)), s)"

subsection \<open>\<open>__init__\<close> and sequences of calls\<close>

text \<open>
  \<open>__init__\<close> draws two pieces: the first becomes \<open>next_piece\<close>, and \<open>_spawn_new_piece\<close>
  promotes it and draws the second; the result of the spawn is discarded.
  \<open>current_piece\<close> is \<open>None\<close> until that spawn assigns it, and nothing reads it before;
  the record needs a key there and carries the first drawn one.
\<close>

definition init :: "kind \<Rightarrow> kind \<Rightarrow> game" where
  "init drawn1 drawn2 =
     snd (spawn_new_piece drawn2
       \<lparr>board = replicate (nat BOARD_HEIGHT) (replicate (nat BOARD_WIDTH) 0),
        score = 0, lines_cleared = 0, level = 1,
        current_piece = drawn1,
        next_piece = generate_random_piece drawn1,
        held_piece = None,
        piece_position = \<lparr>pos_x = 0, pos_y = 0\<rparr>,
        rotation = 0, can_hold = True\<rparr>)"

text \<open>
  A call a client can make, with the pieces it draws. \<open>apply_op\<close> gives the game the call
  leaves behind, whether it returned or raised.
\<close>

datatype op =
  Move int int | Rotate | Drop | HardDrop kind | Place kind | Hold kind
  | Ghost | Snapshot | DropInterval

fun apply_op :: "op \<Rightarrow> game \<Rightarrow> game" where
  "apply_op (Move dx dy) s = snd (move_piece dx dy s)"
| "apply_op Rotate s = snd (rotate_piece s)"
| "apply_op Drop s = snd (drop_piece s)"
| "apply_op (HardDrop drawn) s = snd (hard_drop drawn s)"
| "apply_op (Place drawn) s = snd (place_piece drawn s)"
| "apply_op (Hold drawn) s = snd (hold_piece drawn s)"
| "apply_op Ghost s = snd (get_ghost_position s)"
| "apply_op Snapshot s = snd (get_game_state s)"
| "apply_op DropInterval s = snd (get_drop_interval s)"

fun run :: "op list \<Rightarrow> game \<Rightarrow> game" where
  "run [] s = s"
| "run (c # cs) s = run cs (apply_op c s)"

text \<open>The board has \<open>BOARD_HEIGHT\<close> rows of \<open>BOARD_WIDTH\<close> cells.\<close>

definition board_ok :: "grid \<Rightarrow> bool" where
  "board_ok b = (length b = nat BOARD_HEIGHT \<and> list_all (\<lambda>line. length line = nat BOARD_WIDTH) b)"

subsection \<open>The specification's wording\<close>

text \<open>
  The specification's test on one cell of a piece at an offset: the absolute cell is
  invalid if \<open>x < 0\<close>, \<open>x >= 10\<close>, \<open>y >= 20\<close>, or \<open>y >= 0\<close> and the board cell at
  \<open>(x, y)\<close> is occupied.
\<close>

definition spec_cell_invalid :: "grid \<Rightarrow> position \<Rightarrow> nat \<Rightarrow> nat \<Rightarrow> bool" where
  "spec_cell_invalid b pos row col =
     (let x = pos_x pos + int col; y = pos_y pos + int row
      in x < 0 \<or> x \<ge> 10 \<or> y \<ge> 20 \<or> (y \<ge> 0 \<and> b ! nat y ! nat x \<noteq> 0))"

text \<open>
  The specification's \<open>rotate()\<close>: the candidate rotation is \<open>(rotation + 1) mod
  rotationCount\<close>; it is tried at the current offset first and then at the horizontal
  kicks \<open>-1, +1, -2, +2\<close> in that order with \<open>y\<close> unchanged; the first valid attempt is
  committed, and if all five fail the state is unchanged and the result is failure.
\<close>

definition spec_rotate :: "game \<Rightarrow> (error + bool) \<times> game" where
  "spec_rotate s =
     (let candidate = (rotation s + 1) mod int (length (rotations (current_piece s)));
          offset = (\<lambda>dx. \<lparr>pos_x = pos_x (piece_position s) + dx,
                            pos_y = pos_y (piece_position s)\<rparr>);
          valid = (\<lambda>dx. is_valid_position s None (Some (offset dx)) (Some candidate) = Inr True)
      in case find valid [0, - 1, 1, - 2, 2] of
           None \<Rightarrow> (Inr False, s)
         | Some dx \<Rightarrow> (Inr True, s\<lparr>rotation := candidate, piece_position := offset dx\<rparr>))"

text \<open>
  The current piece, in its current rotation and at its current \<open>x\<close>, is valid at row
  \<open>y\<close>.
\<close>

definition valid_at_row :: "game \<Rightarrow> int \<Rightarrow> bool" where
  "valid_at_row s y =
     (is_valid_position s None (Some ((piece_position s)\<lparr>pos_y := y\<rparr>)) None = Inr True)"

text \<open>
  One iteration of each unbounded loop, as a relation from the state after the iteration
  to the state before it: a successful \<open>drop_piece\<close> in \<open>hard_drop\<close>, and a row found
  valid in \<open>get_ghost_position\<close>.
\<close>

definition drop_steps :: "(game \<times> game) set" where
  "drop_steps = {(s', s). drop_piece s = (Inr True, s')}"

definition ghost_steps :: "game \<Rightarrow> (int \<times> int) set" where
  "ghost_steps s = {(y', y). valid_at_row s y \<and> y' = y + 1}"

subsection \<open>Example games\<close>

definition empty_line :: "int list" where
  "empty_line = [0, 0, 0, 0, 0, 0, 0, 0, 0, 0]"

definition full_line :: "int list" where
  "full_line = [1, 1, 1, 1, 1, 1, 1, 1, 1, 1]"

text \<open>
  A tower of squares in columns 4 and 5 up to row 2 with a bar lying on it in row 1; the
  falling piece is a bar in row 0 and the next piece is a square.
\<close>

definition stacked :: game where
  "stacked =
     \<lparr>board = empty_line # [0, 0, 0, 1, 1, 1, 1, 0, 0, 0]
                # replicate 18 [0, 0, 0, 0, 1, 1, 0, 0, 0, 0],
      score = 182, lines_cleared = 0, level = 1,
      current_piece = Tet_I, next_piece = Tet_O, held_piece = None,
      piece_position = \<lparr>pos_x = 3, pos_y = 0\<rparr>, rotation = 0, can_hold = True\<rparr>"

text \<open>
  The tower of squares alone, up to row 2; the falling piece is a square in rows 0 and 1
  and the next piece is a bar.
\<close>

definition topped :: game where
  "topped =
     \<lparr>board = empty_line # empty_line # replicate 18 [0, 0, 0, 0, 1, 1, 0, 0, 0, 0],
      score = 180, lines_cleared = 0, level = 1,
      current_piece = Tet_O, next_piece = Tet_I, held_piece = None,
      piece_position = \<lparr>pos_x = 4, pos_y = 0\<rparr>, rotation = 0, can_hold = True\<rparr>"


text \<open>An upright bar next to the right wall of an empty board.\<close>

definition at_wall :: game where
  "at_wall = run (Rotate # replicate 5 (Move 1 0)) (init Tet_I Tet_O)"

text \<open>
  Rows 5 and 7 are full; every other row \<open>i\<close> has the single occupied cell
  \<open>i mod 10\<close>.
\<close>

definition board57 :: grid where
  "board57 =
     map (\<lambda>i. if i = 5 \<or> i = 7 then full_line else empty_line[i mod 10 := 1]) [0..<20]"

definition game57 :: game where
  "game57 = (init Tet_O Tet_I)\<lparr>board := board57\<rparr>"

text \<open>Five full rows at the bottom, and a square falling at the top.\<close>

definition five_full :: game where
  "five_full = (init Tet_O Tet_O)\<lparr>board := replicate 15 empty_line @ replicate 5 full_line\<rparr>"

text \<open>
  Rows 16 to 19 are full except for column 0, where an upright bar stands; eight lines
  have been cleared before.
\<close>

definition four_rows :: game where
  "four_rows =
     (init Tet_I Tet_O)
       \<lparr>board := replicate 16 empty_line @ replicate 4 [0, 1, 1, 1, 1, 1, 1, 1, 1, 1],
        lines_cleared := 8, piece_position := \<lparr>pos_x = 0, pos_y = 16\<rparr>, rotation := 1\<rparr>"

section \<open>Properties\<close>

subsection \<open>Boards and list primitives\<close>

lemma board_ok_length: "board_ok b \<Longrightarrow> length b = 20"
  by (simp add: board_ok_def BOARD_HEIGHT_def)

lemma board_ok_row: "board_ok b \<Longrightarrow> i < 20 \<Longrightarrow> length (b ! i) = 10"
  by (simp add: board_ok_def BOARD_HEIGHT_def BOARD_WIDTH_def list_all_length)

lemma py_index_in_range: "0 \<le> i \<Longrightarrow> i < int (length xs) \<Longrightarrow> py_index xs i = Inr (xs ! nat i)"
  by (simp add: py_index_def)

subsection \<open>The cells of a shape\<close>

lemma set_occupied_row:
  "set (occupied_row row col vs) = {(row, col + i) | i. i < length vs \<and> vs ! i \<noteq> 0}"
proof (induction vs arbitrary: col)
  case Nil
  then show ?case by simp
next
  case (Cons v vs)
  have "{(row, col + i) | i. i < length (v # vs) \<and> (v # vs) ! i \<noteq> 0}
      = (if v \<noteq> 0 then {(row, col)} else {})
        \<union> {(row, Suc col + i) | i. i < length vs \<and> vs ! i \<noteq> 0}"
    (is "?L = ?R")
  proof (intro set_eqI iffI)
    fix p assume "p \<in> ?L"
    then obtain i where i: "p = (row, col + i)" "i < length (v # vs)" "(v # vs) ! i \<noteq> 0"
      by blast
    show "p \<in> ?R"
    proof (cases i)
      case 0
      with i show ?thesis by simp
    next
      case (Suc j)
      with i show ?thesis by auto
    qed
  next
    fix p assume "p \<in> ?R"
    then consider "v \<noteq> 0" "p = (row, col)"
      | i where "p = (row, Suc col + i)" "i < length vs" "vs ! i \<noteq> 0"
      by (auto split: if_splits)
    then show "p \<in> ?L"
    proof cases
      case 1
      then have "p = (row, col + 0) \<and> 0 < length (v # vs) \<and> (v # vs) ! 0 \<noteq> 0" by simp
      then show ?thesis by blast
    next
      case 2
      then have "p = (row, col + Suc i) \<and> Suc i < length (v # vs) \<and> (v # vs) ! Suc i \<noteq> 0"
        by simp
      then show ?thesis by blast
    qed
  qed
  then show ?case
    using Cons [of "Suc col"] by (auto simp: truthy_def)
qed

lemma set_occupied_from:
  "set (occupied_from row rs) =
     {(row + j, c) | j c. j < length rs \<and> c < length (rs ! j) \<and> rs ! j ! c \<noteq> 0}"
proof (induction rs arbitrary: row)
  case Nil
  then show ?case by simp
next
  case (Cons r rs)
  have "{(row + j, c) | j c.
          j < length (r # rs) \<and> c < length ((r # rs) ! j) \<and> (r # rs) ! j ! c \<noteq> 0}
      = {(row, 0 + c) | c. c < length r \<and> r ! c \<noteq> 0}
        \<union> {(Suc row + j, c) | j c. j < length rs \<and> c < length (rs ! j) \<and> rs ! j ! c \<noteq> 0}"
    (is "?L = ?A \<union> ?B")
  proof (intro set_eqI iffI)
    fix p assume "p \<in> ?L"
    then obtain j c where jc: "p = (row + j, c)" "j < length (r # rs)"
      "c < length ((r # rs) ! j)" "(r # rs) ! j ! c \<noteq> 0"
      by blast
    show "p \<in> ?A \<union> ?B"
    proof (cases j)
      case 0
      with jc show ?thesis by simp
    next
      case (Suc k)
      with jc have
        "p = (Suc row + k, c) \<and> k < length rs \<and> c < length (rs ! k) \<and> rs ! k ! c \<noteq> 0"
        by simp
      then show ?thesis by blast
    qed
  next
    fix p assume "p \<in> ?A \<union> ?B"
    then consider c where "p = (row, c)" "c < length r" "r ! c \<noteq> 0"
      | j c where "p = (Suc row + j, c)" "j < length rs" "c < length (rs ! j)"
          "rs ! j ! c \<noteq> 0"
      by auto
    then show "p \<in> ?L"
    proof cases
      case 1
      then have "p = (row + 0, c) \<and> 0 < length (r # rs) \<and> c < length ((r # rs) ! 0)
          \<and> (r # rs) ! 0 ! c \<noteq> 0" by simp
      then show ?thesis by blast
    next
      case 2
      then have "p = (row + Suc j, c) \<and> Suc j < length (r # rs)
          \<and> c < length ((r # rs) ! Suc j) \<and> (r # rs) ! Suc j ! c \<noteq> 0" by simp
      then show ?thesis by blast
    qed
  qed
  then show ?case
    using Cons [of "Suc row"] by (simp add: set_occupied_row)
qed

lemma set_occupied:
  "set (occupied sh) =
     {(row, col). row < length sh \<and> col < length (sh ! row) \<and> sh ! row ! col \<noteq> 0}"
  by (auto simp: occupied_def set_occupied_from)

subsection \<open>Validity on a well-formed board\<close>

lemma check_cell_board_ok:
  assumes "board_ok b"
  shows "check_cell b pos (row, col) = Inr (\<not> spec_cell_invalid b pos row col)"
proof -
  let ?x = "pos_x pos + int col" and ?y = "pos_y pos + int row"
  show ?thesis
  proof (cases "?x < 0 \<or> ?x \<ge> 10 \<or> ?y \<ge> 20 \<or> ?y < 0")
    case True
    then show ?thesis
      by (auto simp: check_cell_def spec_cell_invalid_def Let_def BOARD_WIDTH_def
          BOARD_HEIGHT_def)
  next
    case False
    then have y: "0 \<le> ?y" "?y < int (length b)" "nat ?y < 20"
      using board_ok_length [OF assms] by auto
    from False have x: "0 \<le> ?x" "?x < int (length (b ! nat ?y))"
      using board_ok_row [OF assms y(3)] by auto
    show ?thesis
      using False py_index_in_range [OF y(1,2)] py_index_in_range [OF x]
      by (simp add: check_cell_def spec_cell_invalid_def Let_def BOARD_WIDTH_def
          BOARD_HEIGHT_def truthy_def)
  qed
qed

lemma check_cells_board_ok:
  "board_ok b \<Longrightarrow>
   check_cells b pos cells =
     Inr (\<forall>rc \<in> set cells. \<not> spec_cell_invalid b pos (fst rc) (snd rc))"
proof (induction cells)
  case Nil
  then show ?case by simp
next
  case (Cons rc cells)
  obtain row col where rc: "rc = (row, col)" by (cases rc)
  show ?case
    using Cons check_cell_board_ok [of b pos row col]
    by (simp add: rc)
qed

lemma fresh_board_ok: "board_ok (board (init d1 d2))"
  by (simp add: init_def spawn_new_piece_def Let_def board_ok_def BOARD_HEIGHT_def
      BOARD_WIDTH_def list_all_length split: sum.splits)

text \<open>
  C5. On a board of 20 rows of 10 cells, \<open>_is_valid_position\<close> returns \<open>False\<close> exactly
  when some occupied cell \<open>(row, col)\<close> of the shape of the piece at the given rotation
  (taken modulo the number of rotations) has absolute \<open>x < 0\<close>, \<open>x >= 10\<close>, \<open>y >= 20\<close>, or
  \<open>y >= 0\<close> and an occupied board cell at \<open>(x, y)\<close>; a cell with \<open>y < 0\<close> is tested against
  the side walls only. Omitted arguments stand for the attributes of the game. The method
  never raises there and, assigning to nothing, returns a truth value and no game.
\<close>

theorem is_valid_position_spec:
  assumes "board_ok (board s)"
    and "k = (case piece of None \<Rightarrow> current_piece s | Some q \<Rightarrow> q)"
    and "p = (case pos of None \<Rightarrow> piece_position s | Some q \<Rightarrow> q)"
    and "r = (case rot of None \<Rightarrow> rotation s | Some q \<Rightarrow> q)"
    and "sh = rotations k ! nat (r mod int (length (rotations k)))"
  shows "is_valid_position s piece pos rot =
     Inr (\<not> (\<exists>row col. row < length sh \<and> col < length (sh ! row) \<and> sh ! row ! col \<noteq> 0
               \<and> spec_cell_invalid (board s) p row col))"
proof -
  have "is_valid_position s piece pos rot = check_cells (board s) p (occupied sh)"
    using assms(2-5) by (simp add: is_valid_position_def shape_at_def Let_def)
  also have "\<dots> =
      Inr (\<forall>rc \<in> set (occupied sh). \<not> spec_cell_invalid (board s) p (fst rc) (snd rc))"
    by (rule check_cells_board_ok [OF assms(1)])
  also have "(\<forall>rc \<in> set (occupied sh). \<not> spec_cell_invalid (board s) p (fst rc) (snd rc))
      = (\<not> (\<exists>row col. row < length sh \<and> col < length (sh ! row) \<and> sh ! row ! col \<noteq> 0
               \<and> spec_cell_invalid (board s) p row col))"
    by (auto simp: set_occupied)
  finally show ?thesis .
qed

text \<open>
  On a fresh game whose piece is the square, the offset \<open>(9, 0)\<close> is invalid: the right
  column of the square would lie at \<open>x = 10\<close>.
\<close>

theorem is_valid_position_spec_witness:
  "board_ok (board (init Tet_O Tet_I))
   \<and> is_valid_position (init Tet_O Tet_I) None (Some \<lparr>pos_x = 9, pos_y = 0\<rparr>) None = Inr False
   \<and> (\<exists>row col. row < length (rotations Tet_O ! 0) \<and> col < length (rotations Tet_O ! 0 ! row)
         \<and> rotations Tet_O ! 0 ! row ! col \<noteq> 0
         \<and> spec_cell_invalid (board (init Tet_O Tet_I)) \<lparr>pos_x = 9, pos_y = 0\<rparr> row col)"
proof -
  have h: "board_ok (board (init Tet_O Tet_I))"
    by (rule fresh_board_ok)
  have c: "current_piece (init Tet_O Tet_I) = Tet_O" "rotation (init Tet_O Tet_I) = 0"
    by (simp_all add: init_def spawn_new_piece_def Let_def generate_random_piece_def
        split: sum.splits)
  have v: "is_valid_position (init Tet_O Tet_I) None (Some \<lparr>pos_x = 9, pos_y = 0\<rparr>) None
      = Inr False"
    by code_simp
  from is_valid_position_spec [OF h refl refl refl refl,
      of None "Some \<lparr>pos_x = 9, pos_y = 0\<rparr>" None]
  show ?thesis
    using h v by (simp add: c)
qed

subsection \<open>The board keeps its dimensions\<close>

lemma py_index_mem: "py_index xs i = Inr v \<Longrightarrow> v \<in> set xs"
  by (auto simp: py_index_def split: if_splits)

lemma py_store_length: "py_store xs i v = Inr ys \<Longrightarrow> length ys = length xs"
  by (auto simp: py_store_def split: if_splits)

lemma py_del_shape:
  assumes "py_del xs i = Inr ys"
  shows "Suc (length ys) = length xs" and "set ys \<subseteq> set xs"
proof -
  define n where "n = (if 0 \<le> i then nat i else nat (int (length xs) + i))"
  from assms have n: "n < length xs" "ys = take n xs @ drop (Suc n) xs"
    by (auto simp: py_del_def n_def split: if_splits)
  from n show "Suc (length ys) = length xs"
    by simp
  from n show "set ys \<subseteq> set xs"
    by (auto dest: in_set_takeD in_set_dropD)
qed

lemma board_ok_iff:
  "board_ok b \<longleftrightarrow> length b = 20 \<and> (\<forall>line \<in> set b. length line = 10)"
  by (simp add: board_ok_def BOARD_HEIGHT_def BOARD_WIDTH_def list_all_iff)

lemma write_cell_board_ok:
  assumes "board_ok b" and "write_cell b pos rc = Inr b'"
  shows "board_ok b'"
proof (cases "pos_y pos + int (fst rc) \<ge> 0")
  case False
  with assms show ?thesis
    by (simp add: write_cell_def Let_def)
next
  case True
  with assms(2) obtain line line' where l:
    "py_index b (pos_y pos + int (fst rc)) = Inr line"
    "py_store line (pos_x pos + int (snd rc)) 1 = Inr line'"
    "b' = b[nat (pos_y pos + int (fst rc)) := line']"
    by (auto simp: write_cell_def Let_def split: sum.splits)
  from l(1) assms(1) have "length line = 10"
    by (auto simp: board_ok_iff dest: py_index_mem)
  with l(2) have "length line' = 10"
    by (simp add: py_store_length)
  with assms(1) l(3) show ?thesis
    by (auto simp: board_ok_iff dest: subsetD [OF set_update_subset_insert])
qed

lemma write_cells_board_ok:
  "board_ok b \<Longrightarrow> board_ok (snd (write_cells b pos cells))"
proof (induction cells arbitrary: b)
  case Nil
  then show ?case by simp
next
  case (Cons rc cells)
  show ?case
  proof (cases "write_cell b pos rc")
    case (Inl e)
    with Cons.prems show ?thesis by simp
  next
    case (Inr b')
    with Cons.prems have "board_ok b'"
      by (simp add: write_cell_board_ok)
    with Cons.IH [of b'] Inr show ?thesis by simp
  qed
qed

lemma remove_rows_board_ok:
  "board_ok b \<Longrightarrow> board_ok (snd (remove_rows b rows))"
proof (induction rows arbitrary: b)
  case Nil
  then show ?case by simp
next
  case (Cons row rows)
  show ?case
  proof (cases "py_del b row")
    case (Inl e)
    with Cons.prems show ?thesis by simp
  next
    case (Inr b')
    from py_del_shape [OF Inr] Cons.prems
    have "board_ok (replicate (nat BOARD_WIDTH) 0 # b')"
      by (auto simp: board_ok_iff BOARD_WIDTH_def)
    with Cons.IH [of "replicate (nat BOARD_WIDTH) 0 # b'"] Inr show ?thesis by simp
  qed
qed

lemma clear_lines_board_ok:
  assumes "board_ok (board s)"
  shows "board_ok (board (snd (clear_lines s)))"
proof (cases "full_rows (board s) (map int [0..<nat BOARD_HEIGHT])")
  case (Inl e)
  with assms show ?thesis
    by (simp add: clear_lines_def)
next
  case (Inr found)
  from assms have "board_ok (snd (remove_rows (board s) (rev (sort found))))"
    by (rule remove_rows_board_ok)
  with Inr show ?thesis
    by (auto simp: clear_lines_def split: sum.splits prod.splits)
qed

lemma update_score_board: "update_score n s = Inr s' \<Longrightarrow> board s' = board s"
  by (auto simp: update_score_def Let_def split: if_splits sum.splits)

lemma spawn_new_piece_board: "spawn_new_piece drawn s = (r, s') \<Longrightarrow> board s' = board s"
  by (auto simp: spawn_new_piece_def Let_def split: sum.splits if_splits)

lemma move_piece_board: "board (snd (move_piece dx dy s)) = board s"
  by (simp add: move_piece_def Let_def split: sum.splits)

lemma try_kicks_board: "board (snd (try_kicks s new_rotation kicks)) = board s"
  by (induction kicks) (simp_all add: Let_def split: sum.splits)

lemma rotate_piece_board: "board (snd (rotate_piece s)) = board s"
  by (simp add: rotate_piece_def Let_def try_kicks_board split: sum.splits)

lemma hard_drop_loop_board: "board (snd (hard_drop_loop s d)) = board s"
proof (induction s d rule: hard_drop_loop.induct)
  case (1 s d)
  obtain r s' where r: "drop_piece s = (r, s')" by (cases "drop_piece s")
  then have b: "board s' = board s"
    using move_piece_board [of 0 1 s] by (simp add: drop_piece_def)
  show ?case
  proof (cases r)
    case (Inl e)
    with r b show ?thesis by (simp add: hard_drop_loop.simps [of s d])
  next
    case (Inr ok)
    with r b "1.IH" show ?thesis
      by (cases ok) (simp_all add: hard_drop_loop.simps [of s d])
  qed
qed

lemma place_piece_board_ok:
  assumes "board_ok (board s)"
  shows "board_ok (board (snd (place_piece drawn s)))"
proof -
  let ?w = "write_cells (board s) (piece_position s)
      (occupied (shape_at (current_piece s) (rotation s)))"
  have w: "board_ok (snd ?w)"
    by (rule write_cells_board_ok [OF assms])
  then have c: "board_ok (board (snd (clear_lines (s\<lparr>board := snd ?w\<rparr>))))"
    using clear_lines_board_ok [of "s\<lparr>board := snd ?w\<rparr>"] by simp
  show ?thesis
    using w c
    by (auto simp: place_piece_def Let_def
        split: prod.splits sum.splits if_splits
        dest!: update_score_board spawn_new_piece_board)
qed

lemma hard_drop_board_ok:
  assumes "board_ok (board s)"
  shows "board_ok (board (snd (hard_drop drawn s)))"
proof -
  obtain r s1 where l: "hard_drop_loop s 0 = (r, s1)"
    by (cases "hard_drop_loop s 0")
  with hard_drop_loop_board [of s 0] assms have b: "board_ok (board s1)"
    by simp
  show ?thesis
  proof (cases r)
    case (Inl e)
    with l b show ?thesis by (simp add: hard_drop_def)
  next
    case (Inr d)
    with l place_piece_board_ok [of "s1\<lparr>score := score s1 + d * 2\<rparr>" drawn] b
    show ?thesis by (simp add: hard_drop_def)
  qed
qed

lemma hold_piece_board: "board (snd (hold_piece drawn s)) = board s"
  by (simp add: hold_piece_def Let_def split: option.splits)

lemma apply_op_board_ok: "board_ok (board s) \<Longrightarrow> board_ok (board (apply_op c s))"
  by (cases c)
    (simp_all add: move_piece_board rotate_piece_board drop_piece_def hard_drop_board_ok
      place_piece_board_ok hold_piece_board get_ghost_position_def get_game_state_def
      get_drop_interval_def Let_def split: sum.splits)

lemma run_board_ok: "board_ok (board s) \<Longrightarrow> board_ok (board (run cs s))"
  by (induction cs arbitrary: s) (simp_all add: apply_op_board_ok)

text \<open>
  C6. After any sequence of calls on a fresh game (moves, rotations, drops, hard drops,
  placements, holds, ghost queries, snapshots and drop-interval queries, with any pieces
  drawn, and whether a call returned or raised), the board has exactly 20 rows of exactly
  10 cells each.
\<close>

theorem board_dimensions_invariant:
  "length (board (run cs (init drawn1 drawn2))) = 20
   \<and> list_all (\<lambda>line. length line = 10) (board (run cs (init drawn1 drawn2)))"
  using run_board_ok [OF fresh_board_ok, of cs drawn1 drawn2]
  by (simp add: board_ok_def BOARD_HEIGHT_def BOARD_WIDTH_def)


subsection \<open>The example games are reached in play\<close>

lemma stacked_reachable:
  "run (replicate 7 (HardDrop Tet_O) @ [HardDrop Tet_I, HardDrop Tet_I, HardDrop Tet_O])
     (init Tet_O Tet_O) = stacked"
  by code_simp

lemma topped_reachable:
  "run (replicate 8 (HardDrop Tet_O) @ [HardDrop Tet_I]) (init Tet_O Tet_O) = topped"
  by code_simp


subsection \<open>Rotation\<close>

lemma is_valid_position_total:
  assumes "board_ok (board s)"
  shows "\<exists>ok. is_valid_position s piece pos rot = Inr ok"
  by (simp add: is_valid_position_def Let_def check_cells_board_ok [OF assms])

lemma position_eta: "\<lparr>pos_x = pos_x p, pos_y = pos_y p\<rparr> = p"
  by simp

lemma try_kicks_find:
  assumes "board_ok (board s)"
  shows "try_kicks s new_rotation kicks =
     (case find (\<lambda>dx. is_valid_position s None
                   (Some \<lparr>pos_x = pos_x (piece_position s) + dx,
                          pos_y = pos_y (piece_position s)\<rparr>) (Some new_rotation) = Inr True) kicks of
        None \<Rightarrow> (Inr False, s)
      | Some dx \<Rightarrow> (Inr True, s\<lparr>rotation := new_rotation,
            piece_position := \<lparr>pos_x = pos_x (piece_position s) + dx,
                               pos_y = pos_y (piece_position s)\<rparr>\<rparr>))"
proof (induction kicks)
  case Nil
  then show ?case by simp
next
  case (Cons dx kicks)
  obtain ok where "is_valid_position s None
      (Some \<lparr>pos_x = pos_x (piece_position s) + dx, pos_y = pos_y (piece_position s)\<rparr>)
      (Some new_rotation) = Inr ok"
    using is_valid_position_total [OF assms] by blast
  with Cons show ?case
    by (cases ok) (simp_all add: Let_def)
qed

text \<open>
  C4. On a board of 20 rows of 10 cells, for every piece, rotation index and offset,
  \<open>rotate_piece\<close> is the specification's \<open>rotate()\<close>: the candidate rotation
  \<open>(rotation + 1) mod rotationCount\<close> is tried at the current offset, then at the kicks
  \<open>-1, +1, -2, +2\<close> in that order with \<open>y\<close> unchanged; the first valid attempt is
  committed; if all five fail, rotation and offset are unchanged and \<open>False\<close> is returned.
\<close>

theorem rotate_piece_spec:
  assumes "board_ok (board s)"
  shows "rotate_piece s = spec_rotate s"
proof -
  let ?c = "(rotation s + 1) mod int (length (rotations (current_piece s)))"
  let ?V = "\<lambda>dx. is_valid_position s None
      (Some \<lparr>pos_x = pos_x (piece_position s) + dx, pos_y = pos_y (piece_position s)\<rparr>)
      (Some ?c) = Inr True"
  obtain ok where ok: "is_valid_position s None None (Some ?c) = Inr ok"
    using is_valid_position_total [OF assms] by blast
  have same: "?V 0 = ok"
    using ok by (simp add: is_valid_position_def position_eta)
  show ?thesis
  proof (cases ok)
    case True
    with same have "find ?V [0, - 1, 1, - 2, 2] = Some 0"
      by simp
    then have "spec_rotate s = (Inr True, s\<lparr>rotation := ?c\<rparr>)"
      by (simp add: spec_rotate_def Let_def position_eta)
    moreover from ok True have "rotate_piece s = (Inr True, s\<lparr>rotation := ?c\<rparr>)"
      by (simp add: rotate_piece_def Let_def)
    ultimately show ?thesis by simp
  next
    case False
    with same have f: "find ?V [0, - 1, 1, - 2, 2] = find ?V [- 1, 1, - 2, 2]"
      by simp
    from ok False have r: "rotate_piece s = try_kicks s ?c [- 1, 1, - 2, 2]"
      by (simp add: rotate_piece_def Let_def del: try_kicks.simps)
    have sp: "spec_rotate s =
        (case find ?V [- 1, 1, - 2, 2] of
           None \<Rightarrow> (Inr False, s)
         | Some dx \<Rightarrow> (Inr True, s\<lparr>rotation := ?c,
             piece_position := \<lparr>pos_x = pos_x (piece_position s) + dx,
                                pos_y = pos_y (piece_position s)\<rparr>\<rparr>))"
      by (simp only: spec_rotate_def Let_def f)
    show ?thesis
      unfolding r sp by (rule try_kicks_find [OF assms])
  qed
qed

lemma run_board_ok_init: "board_ok (board (run cs (init d1 d2)))"
  by (rule run_board_ok [OF fresh_board_ok])

text \<open>
  An upright bar in column 8 of an empty board: the lying bar does not fit at offsets 8, 7
  and 9, and the kick \<open>-2\<close> is committed.
\<close>

theorem rotate_piece_spec_witness:
  "board_ok (board at_wall)
   \<and> rotate_piece at_wall
       = (Inr True, at_wall\<lparr>rotation := 0, piece_position := \<lparr>pos_x = 6, pos_y = 0\<rparr>\<rparr>)
   \<and> piece_position at_wall = \<lparr>pos_x = 8, pos_y = 0\<rparr> \<and> rotation at_wall = 1"
proof -
  have h: "board_ok (board at_wall)"
    unfolding at_wall_def by (rule run_board_ok_init)
  have e: "spec_rotate at_wall
      = (Inr True, at_wall\<lparr>rotation := 0, piece_position := \<lparr>pos_x = 6, pos_y = 0\<rparr>\<rparr>)"
    by code_simp
  have p: "piece_position at_wall = \<lparr>pos_x = 8, pos_y = 0\<rparr> \<and> rotation at_wall = 1"
    by code_simp
  from rotate_piece_spec [OF h] e h p show ?thesis
    by simp
qed


subsection \<open>The two unbounded loops\<close>

lemma occupied_nonempty: "occupied (shape_at k rot) \<noteq> []"
proof -
  have m2: "rot mod 2 = 0 \<or> rot mod 2 = 1"
    by presburger
  have m4: "rot mod 4 = 0 \<or> rot mod 4 = 1 \<or> rot mod 4 = 2 \<or> rot mod 4 = 3"
    by presburger
  from m2 m4 show ?thesis
    by (cases k) (auto simp: shape_at_def occupied_def truthy_def)
qed

lemma valid_above_floor:
  assumes "is_valid_position s piece (Some p) rot = Inr True"
  shows "pos_y p < 20"
proof -
  let ?k = "case piece of None \<Rightarrow> current_piece s | Some q \<Rightarrow> q"
  let ?r = "case rot of None \<Rightarrow> rotation s | Some q \<Rightarrow> q"
  obtain rc rest where cells: "occupied (shape_at ?k ?r) = rc # rest"
    using occupied_nonempty [of ?k ?r] by (cases "occupied (shape_at ?k ?r)") auto
  with assms have "check_cell (board s) p rc = Inr True"
    by (auto simp: is_valid_position_def Let_def split: sum.splits if_splits)
  then have "pos_y p + int (fst rc) < 20"
    by (auto simp: check_cell_def Let_def BOARD_HEIGHT_def split: if_splits)
  then show ?thesis by simp
qed

lemma drop_steps_measure:
  "drop_steps \<subseteq> measure (\<lambda>s. nat (20 - pos_y (piece_position s)))"
proof
  fix x assume "x \<in> drop_steps"
  then obtain s' s where x: "x = (s', s)" and d: "drop_piece s = (Inr True, s')"
    by (auto simp: drop_steps_def)
  let ?p = "\<lparr>pos_x = pos_x (piece_position s) + 0, pos_y = pos_y (piece_position s) + 1\<rparr>"
  from d have v: "is_valid_position s None (Some ?p) None = Inr True"
    and s': "s' = s\<lparr>piece_position := ?p\<rparr>"
    by (auto simp: drop_piece_def move_piece_def Let_def split: sum.splits if_splits)
  from valid_above_floor [OF v] have "pos_y (piece_position s) + 1 < 20"
    by simp
  with x s' show "x \<in> measure (\<lambda>s. nat (20 - pos_y (piece_position s)))"
    by simp
qed

lemma ghost_steps_measure: "ghost_steps s \<subseteq> measure (\<lambda>y. nat (20 - y))"
proof
  fix x assume "x \<in> ghost_steps s"
  then obtain y where x: "x = (y + 1, y)" and v: "valid_at_row s y"
    by (auto simp: ghost_steps_def)
  from v have "pos_y ((piece_position s)\<lparr>pos_y := y\<rparr>) < 20"
    unfolding valid_at_row_def by (rule valid_above_floor)
  with x show "x \<in> measure (\<lambda>y. nat (20 - y))"
    by simp
qed

text \<open>
  C9. The two unbounded loops terminate on every game, whatever the board, piece, offset
  and rotation: no infinite chain of successful \<open>drop_piece\<close> steps exists, and no
  infinite chain of rows found valid by \<open>get_ghost_position\<close>, because every shape of the
  catalogue at every rotation index has an occupied cell and a valid offset keeps it above
  row 20. Every other operation is a composition of these loops and of loops over fixed
  finite lists; the model's functions are total, the two loops by the termination proofs
  given with their definitions.
\<close>

theorem loops_terminate:
  "wf drop_steps \<and> wf (ghost_steps s) \<and> occupied (shape_at k rot) \<noteq> []"
proof (intro conjI)
  show "wf drop_steps"
    by (rule wf_subset [OF wf_measure drop_steps_measure])
  show "wf (ghost_steps s)"
    by (rule wf_subset [OF wf_measure ghost_steps_measure])
  show "occupied (shape_at k rot) \<noteq> []"
    by (rule occupied_nonempty)
qed

subsection \<open>The ghost position\<close>

lemma ghost_loop_first_invalid:
  assumes "board_ok (board s)" and "pos_x tp = pos_x (piece_position s)"
  shows "\<exists>g. ghost_loop s tp y = Inr g \<and> y \<le> g
           \<and> (\<forall>y'. y \<le> y' \<and> y' < g \<longrightarrow> valid_at_row s y') \<and> \<not> valid_at_row s g"
  using assms
proof (induction s tp y rule: ghost_loop.induct)
  case (1 s temp_pos ghost_y)
  let ?tp = "temp_pos\<lparr>pos_y := ghost_y\<rparr>"
  have tp: "?tp = (piece_position s)\<lparr>pos_y := ghost_y\<rparr>"
    using "1.prems"(2) by simp
  obtain ok where ok: "is_valid_position s None (Some ?tp) None = Inr ok"
    using is_valid_position_total [OF "1.prems"(1)] by blast
  show ?case
  proof (cases ok)
    case False
    with ok have "ghost_loop s temp_pos ghost_y = Inr ghost_y"
      by (simp add: ghost_loop.simps [of s temp_pos ghost_y] Let_def)
    moreover from ok False tp have "\<not> valid_at_row s ghost_y"
      by (simp add: valid_at_row_def)
    ultimately show ?thesis by auto
  next
    case True
    with ok tp have v: "valid_at_row s ghost_y"
      by (simp add: valid_at_row_def)
    from "1.IH" [OF refl ok] True "1.prems"
    obtain g where g: "ghost_loop s ?tp (ghost_y + 1) = Inr g" "ghost_y + 1 \<le> g"
      "\<forall>y'. ghost_y + 1 \<le> y' \<and> y' < g \<longrightarrow> valid_at_row s y'" "\<not> valid_at_row s g"
      by auto
    from ok True g(1) have "ghost_loop s temp_pos ghost_y = Inr g"
      by (simp add: ghost_loop.simps [of s temp_pos ghost_y] Let_def)
    moreover have "\<forall>y'. ghost_y \<le> y' \<and> y' < g \<longrightarrow> valid_at_row s y'"
    proof (intro allI impI)
      fix y' assume "ghost_y \<le> y' \<and> y' < g"
      then consider "y' = ghost_y" | "ghost_y + 1 \<le> y' \<and> y' < g" by linarith
      then show "valid_at_row s y'"
        using v g(3) by cases auto
    qed
    ultimately show ?thesis
      using g(2,4) by auto
  qed
qed

text \<open>
  C7, as amended. On a board of 20 rows of 10 cells \<open>get_ghost_position\<close> returns the
  game unchanged (board, offset and rotation included) together with \<open>(x, g)\<close>, where
  \<open>x\<close> is the current column and \<open>g + 1\<close> is the first row, counted from the current
  row downwards, at which the current piece in its current rotation is invalid: every row
  from the current one to \<open>g\<close> is valid. If the current offset is valid, \<open>g\<close> is the last
  valid row at or below the current row; if the current offset is itself invalid, \<open>g\<close> is
  the row above the current one. A second call returns the same result.
\<close>

theorem get_ghost_position_spec:
  assumes "board_ok (board s)"
  shows "\<exists>g. get_ghost_position s = (Inr (pos_x (piece_position s), g), s)
      \<and> pos_y (piece_position s) - 1 \<le> g
      \<and> (\<forall>y. pos_y (piece_position s) \<le> y \<and> y \<le> g \<longrightarrow> valid_at_row s y)
      \<and> \<not> valid_at_row s (g + 1)
      \<and> (valid_at_row s (pos_y (piece_position s)) \<longleftrightarrow> pos_y (piece_position s) \<le> g)
      \<and> get_ghost_position (snd (get_ghost_position s)) = get_ghost_position s"
proof -
  let ?y = "pos_y (piece_position s)"
  from ghost_loop_first_invalid [OF assms refl, of ?y]
  obtain g where g: "ghost_loop s (piece_position s) ?y = Inr g" "?y \<le> g"
    "\<forall>y'. ?y \<le> y' \<and> y' < g \<longrightarrow> valid_at_row s y'" "\<not> valid_at_row s g"
    by blast
  have r: "get_ghost_position s = (Inr (pos_x (piece_position s), g - 1), s)"
    using g(1) by (simp add: get_ghost_position_def Let_def)
  have "valid_at_row s ?y \<longleftrightarrow> ?y \<le> g - 1"
  proof
    assume "valid_at_row s ?y"
    with g(4) have "g \<noteq> ?y" by auto
    with g(2) show "?y \<le> g - 1" by simp
  next
    assume "?y \<le> g - 1"
    with g(3) show "valid_at_row s ?y" by simp
  qed
  moreover have "\<forall>y. ?y \<le> y \<and> y \<le> g - 1 \<longrightarrow> valid_at_row s y"
    using g(3) by simp
  ultimately show ?thesis
    using r g(2,4) by (intro exI [of _ "g - 1"]) simp
qed


text \<open>On a fresh game the square's ghost lies in rows 18 and 19.\<close>

theorem get_ghost_position_spec_witness:
  "board_ok (board (init Tet_O Tet_I))
   \<and> get_ghost_position (init Tet_O Tet_I) = (Inr (4, 18), init Tet_O Tet_I)
   \<and> valid_at_row (init Tet_O Tet_I) 18 \<and> \<not> valid_at_row (init Tet_O Tet_I) 19"
proof -
  have h: "board_ok (board (init Tet_O Tet_I))"
    by (rule fresh_board_ok)
  have e: "get_ghost_position (init Tet_O Tet_I) = (Inr (4, 18), init Tet_O Tet_I)"
    by code_simp
  have p: "pos_y (piece_position (init Tet_O Tet_I)) = 0"
    by code_simp
  from get_ghost_position_spec [OF h] e p show ?thesis
    using h by auto
qed

text \<open>
  C7 as stated fails where the current offset is invalid. In the game \<open>stacked\<close> the
  falling bar is valid; \<open>hold_piece\<close> replaces it by the square at offset \<open>(4, 0)\<close>,
  which overlaps the bar lying in row 1, and \<open>get_ghost_position\<close> then returns row
  \<open>-1\<close>, a row above the current row 0 and not a row at or below it.
\<close>

theorem ghost_above_current_row:
  "is_valid_position stacked None None None = Inr True
   \<and> hold_piece Tet_T stacked
       = (Inr True, stacked\<lparr>current_piece := Tet_O, next_piece := Tet_T,
            held_piece := Some Tet_I, piece_position := \<lparr>pos_x = 4, pos_y = 0\<rparr>,
            can_hold := False\<rparr>)
   \<and> fst (get_ghost_position (snd (hold_piece Tet_T stacked))) = Inr (4, - 1)
   \<and> pos_y (piece_position (snd (hold_piece Tet_T stacked))) = 0
   \<and> \<not> valid_at_row (snd (hold_piece Tet_T stacked)) 0"
  by code_simp

subsection \<open>Hold\<close>

text \<open>
  C10. \<open>hold_piece\<close> returns \<open>True\<close> whenever \<open>can_hold\<close> is set and never tests the
  offset it computes, whereas the result of \<open>_spawn_new_piece\<close> is the validity of the
  offset it computes. In the game \<open>stacked\<close>, whose falling bar is valid, a hold succeeds
  and leaves the square overlapping occupied cells, where a spawn of the same square on
  the same board reports \<open>False\<close>.
\<close>

theorem hold_piece_unvalidated:
  "(can_hold s \<longrightarrow> fst (hold_piece drawn s) = Inr True)
   \<and> fst (spawn_new_piece drawn s) = is_valid_position (snd (spawn_new_piece drawn s)) None None None
   \<and> can_hold stacked
   \<and> is_valid_position stacked None None None = Inr True
   \<and> fst (hold_piece Tet_T stacked) = Inr True
   \<and> current_piece (snd (hold_piece Tet_T stacked)) = Tet_O
   \<and> piece_position (snd (hold_piece Tet_T stacked)) = \<lparr>pos_x = 4, pos_y = 0\<rparr>
   \<and> board (snd (hold_piece Tet_T stacked)) ! 1 ! 4 = 1
   \<and> is_valid_position (snd (hold_piece Tet_T stacked)) None None None = Inr False
   \<and> fst (spawn_new_piece Tet_T stacked) = Inr False"
proof -
  have "can_hold s \<longrightarrow> fst (hold_piece drawn s) = Inr True"
    by (simp add: hold_piece_def Let_def)
  moreover have "fst (spawn_new_piece drawn s)
      = is_valid_position (snd (spawn_new_piece drawn s)) None None None"
    by (simp add: spawn_new_piece_def Let_def split: sum.splits)
  moreover have "can_hold stacked"
    by (simp add: stacked_def)
  moreover have "is_valid_position stacked None None None = Inr True"
    by code_simp
  moreover have "fst (hold_piece Tet_T stacked) = Inr True"
    by code_simp
  moreover have "current_piece (snd (hold_piece Tet_T stacked)) = Tet_O
      \<and> piece_position (snd (hold_piece Tet_T stacked)) = \<lparr>pos_x = 4, pos_y = 0\<rparr>
      \<and> board (snd (hold_piece Tet_T stacked)) ! 1 ! 4 = 1"
    by code_simp
  moreover have "is_valid_position (snd (hold_piece Tet_T stacked)) None None None = Inr False"
    by code_simp
  moreover have "fst (spawn_new_piece Tet_T stacked) = Inr False"
    by code_simp
  ultimately show ?thesis by blast
qed

text \<open>The hold in \<open>stacked\<close>, where \<open>can_hold\<close> is set.\<close>

theorem hold_piece_unvalidated_witness:
  "can_hold stacked \<and> fst (hold_piece Tet_T stacked) = Inr True
   \<and> is_valid_position (snd (hold_piece Tet_T stacked)) None None None = Inr False"
proof -
  have c: "can_hold stacked"
    by (simp add: stacked_def)
  from hold_piece_unvalidated [of stacked Tet_T] c show ?thesis
    by blast
qed


subsection \<open>Clearing lines\<close>

lemma full_rows_filter:
  assumes "\<forall>i \<in> set ns. i < length b"
  shows "full_rows b (map int ns) = Inr (map int (filter (\<lambda>i. py_all (b ! i)) ns))"
  using assms
proof (induction ns)
  case Nil
  then show ?case by simp
next
  case (Cons n ns)
  then have "py_index b (int n) = Inr (b ! n)"
    by (simp add: py_index_def)
  with Cons show ?case by simp
qed

lemma py_del_in_range:
  "n < length xs \<Longrightarrow> py_del xs (int n) = Inr (take n xs @ drop (Suc n) xs)"
  by (simp add: py_del_def)

lemma remove_rows_7_5:
  assumes "length b = 20"
  shows "remove_rows b [7, 5] =
     (Inr (), replicate 10 0 # replicate 10 0 # take 4 b @ [b ! 5, b ! 6] @ drop 8 b)"
proof -
  let ?z = "replicate 10 (0::int)"
  let ?b1 = "?z # take 7 b @ drop 8 b"
  have d1: "py_del b 7 = Inr (take 7 b @ drop 8 b)"
    using py_del_in_range [of 7 b] assms by simp
  have t: "take 5 ?b1 = ?z # take 4 b"
    using assms by (simp add: take_Cons')
  have "drop (Suc 5) ?b1 = drop 5 (take 7 b) @ drop 8 b"
    using assms by simp
  also have "drop 5 (take 7 b) = [b ! 5, b ! 6]"
  proof -
    have "drop 5 b = b ! 5 # drop 6 b"
      using Cons_nth_drop_Suc [of 5 b] assms by simp
    moreover have "drop 6 b = b ! 6 # drop 7 b"
      using Cons_nth_drop_Suc [of 6 b] assms by simp
    moreover have "drop 5 (take 7 b) = take 2 (drop 5 b)"
      by (simp add: drop_take)
    ultimately show ?thesis by simp
  qed
  finally have d: "drop (Suc 5) ?b1 = [b ! 5, b ! 6] @ drop 8 b" .
  have "py_del ?b1 (int 5) = Inr (take 5 ?b1 @ drop (Suc 5) ?b1)"
    by (rule py_del_in_range) (simp add: assms)
  then have "py_del ?b1 (int 5) = Inr ((?z # take 4 b) @ [b ! 5, b ! 6] @ drop 8 b)"
    by (simp only: t d)
  then have d2: "py_del ?b1 5 = Inr (?z # take 4 b @ [b ! 5, b ! 6] @ drop 8 b)"
    by simp
  have "remove_rows b [7, 5] = remove_rows ?b1 [5]"
    using d1 by (simp add: BOARD_WIDTH_def del: replicate.simps)
  also have "\<dots> = (Inr (), ?z # ?z # take 4 b @ [b ! 5, b ! 6] @ drop 8 b)"
    using d2 by (simp add: BOARD_WIDTH_def del: replicate.simps)
  finally show ?thesis .
qed

lemma clear_lines_two_full_rows:
  assumes "board_ok (board s)" and "\<forall>i<20. py_all (board s ! i) = (i = 5 \<or> i = 7)"
  shows "clear_lines s =
     (Inr 2, s\<lparr>board := replicate 10 0 # replicate 10 0 # take 4 (board s)
                 @ [board s ! 5, board s ! 6] @ drop 8 (board s)\<rparr>)"
proof -
  have len: "length (board s) = 20"
    by (rule board_ok_length [OF assms(1)])
  have "filter (\<lambda>i. py_all (board s ! i)) [0..<20] = filter (\<lambda>i. i = 5 \<or> i = 7) [0..<20]"
    using assms(2) by (intro filter_cong) auto
  also have "\<dots> = [5, 7]"
    by code_simp
  finally have f: "filter (\<lambda>i. py_all (board s ! i)) [0..<20] = [5, 7]" .
  have "full_rows (board s) (map int [0..<20]) = Inr (map int [5, 7])"
    using full_rows_filter [of "[0..<20]" "board s"] len by (simp only: f) simp
  then have fr: "full_rows (board s) (map int [0..<nat BOARD_HEIGHT]) = Inr [5, 7]"
    by (simp add: BOARD_HEIGHT_def)
  have so: "rev (sort [5, 7 :: int]) = [7, 5]"
    by simp
  show ?thesis
    by (simp add: clear_lines_def fr so remove_rows_7_5 [OF len] del: remove_rows.simps replicate.simps)
qed

text \<open>
  On every board of 20 rows of 10 cells in which exactly rows 5 and 7 are full, the call
  leaves the full row 5 on the board, in row 6, where the partial row 4 belongs, and row 4
  is gone.
\<close>

lemma clear_lines_full_row_survives:
  assumes "board_ok (board s)" and "\<forall>i<20. py_all (board s ! i) = (i = 5 \<or> i = 7)"
  shows "fst (clear_lines s) = Inr 2
     \<and> board (snd (clear_lines s)) ! 6 = board s ! 5
     \<and> py_all (board (snd (clear_lines s)) ! 6)
     \<and> board (snd (clear_lines s)) ! 6 \<noteq> board s ! 4"
proof -
  have len: "length (board s) = 20"
    by (rule board_ok_length [OF assms(1)])
  let ?b' = "replicate 10 (0::int) # replicate 10 0 # take 4 (board s)
      @ [board s ! 5, board s ! 6] @ drop 8 (board s)"
  have c: "clear_lines s = (Inr 2, s\<lparr>board := ?b'\<rparr>)"
    by (rule clear_lines_two_full_rows [OF assms])
  have r6: "?b' ! 6 = board s ! 5"
    using len by (simp add: nth_append nth_Cons')
  from assms(2) have full: "py_all (board s ! 5)" and part: "\<not> py_all (board s ! 4)"
    by simp_all
  from full part have "board s ! 5 \<noteq> board s ! 4"
    by auto
  with r6 full show ?thesis
    by (simp add: c del: replicate.simps)
qed

text \<open>
  C1. The claim describes what clearing rows 5 and 7 has to do, and \<open>_clear_lines\<close> does
  not do it. On \<open>board57\<close>, where exactly rows 5 and 7 are full and row \<open>i\<close> otherwise
  has the single cell \<open>i mod 10\<close>, the call returns 2, but row 6 of the result is not the
  partial row 4: it is the full row 5, which stays on the board, and row 4 is deleted. The
  loop deletes row 7, inserts an empty row and then deletes index 5 of the shifted board.
  (Row 10, below the cleared rows, lies where it was.)
\<close>

theorem clear_lines_stale_index:
  "board_ok (board game57)
   \<and> board game57 ! 4 = [0, 0, 0, 0, 1, 0, 0, 0, 0, 0]
   \<and> board game57 ! 5 = full_line
   \<and> board game57 ! 7 = full_line
   \<and> fst (clear_lines game57) = Inr 2
   \<and> board (snd (clear_lines game57)) ! 6 = full_line
   \<and> board (snd (clear_lines game57)) ! 6 \<noteq> board57 ! 4
   \<and> board (snd (clear_lines game57)) ! 5 = board57 ! 3
   \<and> board (snd (clear_lines game57)) ! 7 = board57 ! 6
   \<and> length (filter py_all (board (snd (clear_lines game57)))) = 1
   \<and> board (snd (clear_lines game57)) ! 10 = board57 ! 10"
  by code_simp

subsection \<open>Scoring\<close>

lemma update_score_cases:
  "update_score n s =
     (if n \<le> 0 then Inr s
      else if n \<le> 4 then
        Inr (s\<lparr>score := score s + [0, 40, 100, 300, 1200] ! nat n * level s,
               lines_cleared := lines_cleared s + n,
               level := (lines_cleared s + n) div 10 + 1\<rparr>)
      else Inl IndexError)"
  by (simp add: update_score_def py_index_def Let_def)

text \<open>
  C3, as amended. For a count of cleared lines from 0 to 4 the scoring step is defined: it
  adds the table entry \<open>[0, 40, 100, 300, 1200][n]\<close> times the level to the score (for 0
  it changes nothing), adds the count to the lines cleared and recomputes the level. For
  every count above 4 the table lookup raises \<open>IndexError\<close>: the count is not clamped.
\<close>

theorem update_score_table:
  "update_score n s =
     (if n \<le> 0 then Inr s
      else if n \<le> 4 then
        Inr (s\<lparr>score := score s + [0, 40, 100, 300, 1200] ! nat n * level s,
               lines_cleared := lines_cleared s + n,
               level := (lines_cleared s + n) div 10 + 1\<rparr>)
      else Inl IndexError)"
  by (rule update_score_cases)

text \<open>
  C3 as stated fails at the count 5: with five full rows on the board the scoring step,
  and with it the placement, raises instead of awarding 1200 times the level.
\<close>

theorem update_score_no_clamp:
  "fst (clear_lines five_full) = Inr 5
   \<and> update_score 5 five_full = Inl IndexError
   \<and> fst (place_piece Tet_O five_full) = Inl IndexError"
  by code_simp

lemma clear_lines_fields:
  "score (snd (clear_lines s)) = score s \<and> lines_cleared (snd (clear_lines s)) = lines_cleared s
   \<and> level (snd (clear_lines s)) = level s"
  by (simp add: clear_lines_def split: sum.splits prod.splits)

lemma spawn_new_piece_fields:
  "score (snd (spawn_new_piece drawn s)) = score s
   \<and> lines_cleared (snd (spawn_new_piece drawn s)) = lines_cleared s
   \<and> level (snd (spawn_new_piece drawn s)) = level s"
  by (simp add: spawn_new_piece_def Let_def split: sum.splits)

text \<open>
  C8. A placement whose cells are written without error and whose line clear returns 4
  adds exactly 1200 times the level at the time of placement to the score, which is 1200
  at level 1 and 2400 at level 2; the level is recomputed afterwards from the new total of
  lines cleared. (A hard drop adds its bonus before it calls the placement.)
\<close>

theorem four_lines_score:
  assumes "fst (write_cells (board s) (piece_position s)
              (occupied (shape_at (current_piece s) (rotation s)))) = Inr ()"
    and "fst (clear_lines (s\<lparr>board := snd (write_cells (board s) (piece_position s)
              (occupied (shape_at (current_piece s) (rotation s))))\<rparr>)) = Inr 4"
  shows "score (snd (place_piece drawn s)) = score s + 1200 * level s
     \<and> lines_cleared (snd (place_piece drawn s)) = lines_cleared s + 4
     \<and> level (snd (place_piece drawn s)) = (lines_cleared s + 4) div 10 + 1
     \<and> (level s = 1 \<longrightarrow> score (snd (place_piece drawn s)) = score s + 1200)
     \<and> (level s = 2 \<longrightarrow> score (snd (place_piece drawn s)) = score s + 2400)"
proof -
  let ?w = "write_cells (board s) (piece_position s)
      (occupied (shape_at (current_piece s) (rotation s)))"
  obtain b1 where w: "?w = (Inr (), b1)"
    using assms(1) by (cases ?w) simp
  obtain s2 where c: "clear_lines (s\<lparr>board := b1\<rparr>) = (Inr 4, s2)"
    using assms(2) w by (cases "clear_lines (s\<lparr>board := b1\<rparr>)") simp
  from clear_lines_fields [of "s\<lparr>board := b1\<rparr>"] c
  have f2: "score s2 = score s" "lines_cleared s2 = lines_cleared s" "level s2 = level s"
    by simp_all
  let ?s3 = "s2\<lparr>score := score s2 + 1200 * level s2, lines_cleared := lines_cleared s2 + 4,
      level := (lines_cleared s2 + 4) div 10 + 1\<rparr>"
  have u: "update_score 4 s2 = Inr ?s3"
    by (simp add: update_score_cases)
  obtain r4 s4 where sp: "spawn_new_piece drawn ?s3 = (r4, s4)"
    by (cases "spawn_new_piece drawn ?s3")
  have "snd (place_piece drawn s) = s4"
    by (cases r4) (simp_all add: place_piece_def Let_def w c u sp)
  with spawn_new_piece_fields [of drawn ?s3] f2 sp
  have "score (snd (place_piece drawn s)) = score s + 1200 * level s"
    "lines_cleared (snd (place_piece drawn s)) = lines_cleared s + 4"
    "level (snd (place_piece drawn s)) = (lines_cleared s + 4) div 10 + 1"
    by simp_all
  then show ?thesis by simp
qed

text \<open>
  In \<open>four_rows\<close> the upright bar completes rows 16 to 19 at level 1 with 8 lines
  cleared before: the score grows by 1200 and the level becomes 2. The same placement at
  level 2 adds 2400.
\<close>

theorem four_lines_score_witness:
  "fst (place_piece Tet_T four_rows) = Inr 4
   \<and> level four_rows = 1 \<and> lines_cleared four_rows = 8
   \<and> score (snd (place_piece Tet_T four_rows)) = score four_rows + 1200
   \<and> level (snd (place_piece Tet_T four_rows)) = 2
   \<and> score (snd (place_piece Tet_T (four_rows\<lparr>level := 2, lines_cleared := 10\<rparr>)))
       = score four_rows + 2400"
proof -
  have w1: "fst (write_cells (board four_rows) (piece_position four_rows)
      (occupied (shape_at (current_piece four_rows) (rotation four_rows)))) = Inr ()"
    by code_simp
  have c1: "fst (clear_lines (four_rows\<lparr>board := snd (write_cells (board four_rows)
      (piece_position four_rows)
      (occupied (shape_at (current_piece four_rows) (rotation four_rows))))\<rparr>)) = Inr 4"
    by code_simp
  let ?g = "four_rows\<lparr>level := 2, lines_cleared := 10\<rparr>"
  have w2: "fst (write_cells (board ?g) (piece_position ?g)
      (occupied (shape_at (current_piece ?g) (rotation ?g)))) = Inr ()"
    by code_simp
  have c2: "fst (clear_lines (?g\<lparr>board := snd (write_cells (board ?g)
      (piece_position ?g) (occupied (shape_at (current_piece ?g) (rotation ?g))))\<rparr>)) = Inr 4"
    by code_simp
  have l: "level four_rows = 1 \<and> lines_cleared four_rows = 8 \<and> score ?g = score four_rows
      \<and> level ?g = 2"
    by code_simp
  have r: "fst (place_piece Tet_T four_rows) = Inr 4"
    by code_simp
  from four_lines_score [OF w1 c1, of Tet_T] four_lines_score [OF w2 c2, of Tet_T] l r
  show ?thesis by simp
qed


subsection \<open>Hard drops after the game-over signal\<close>









end
